theory Spec2Isabelle
  imports Complex_Main "HOL-Library.AList"
begin

section \<open>Python values used by the AQI calculator\<close>

text \<open>
  The calculator of \<^verbatim>\<open>main.py\<close> (and of its earlier draft, which has the same
  text) works on Python floats, Python ints and Python strings.  Ints are unbounded
  and are modelled by \<open>int\<close>.  Floats are IEEE 754 binary64 numbers; they are modelled
  by their exact rational value, with every arithmetic result rounded to the nearest
  binary64 number (ties to even), as the hardware does.  The exceptions the arithmetic
  of the calculator can raise are values of \<open>pyerror\<close>.
\<close>

datatype pyerror = ZeroDivisionError | OverflowError | ValueError

subsection \<open>Rounding to binary64\<close>

text \<open>\<open>ilog2 n\<close> is the position of the highest set bit of \<open>n\<close>.\<close>

fun ilog2 :: "nat \<Rightarrow> nat" where
  "ilog2 n = (if n < 2 then 0 else Suc (ilog2 (n div 2)))"

declare ilog2.simps [simp del]

text \<open>
  The binary exponent of a positive rational: \<open>2 powi expo x \<le> x < 2 powi (expo x + 1)\<close>.
\<close>

definition expo :: "rat \<Rightarrow> int" where
  "expo x = (if 1 \<le> x then int (ilog2 (nat \<lfloor>x\<rfloor>))
             else - int (Suc (ilog2 (nat \<lceil>1 / x\<rceil> - 1))))"

text \<open>Rounding to the nearest integer, ties to the even one.\<close>

definition round_half_even :: "rat \<Rightarrow> int" where
  "round_half_even x =
     (let f = \<lfloor>x\<rfloor>; d = x - of_int f
      in if d < 1 / 2 then f
         else if 1 / 2 < d then f + 1
         else if even f then f else f + 1)"

text \<open>
  The unit in the last place of a positive rational: the significand has 53 bits, and
  the exponent is held at \<open>-1022\<close> below (the subnormal numbers).
\<close>

definition ulp :: "rat \<Rightarrow> rat" where
  "ulp x = 2 powi (max (expo x) (- 1022) - 52)"

text \<open>The nearest multiple of the ulp, ties to even; the exponent is unbounded above.\<close>

definition b64_round :: "rat \<Rightarrow> rat" where
  "b64_round x =
     (if x = 0 then 0
      else sgn x * of_int (round_half_even (\<bar>x\<bar> / ulp \<bar>x\<bar>)) * ulp \<bar>x\<bar>)"

text \<open>
  A float is a finite number, an infinity or a NaN.  The two zeros are one value:
  the calculator compares floats, divides (Python raises on either zero) and rounds
  to an int, and none of these tells them apart.
\<close>

datatype pyfloat = Finite rat | PInf | NInf | NaN

text \<open>A rounded result of magnitude \<open>2 ^ 1024\<close> or more overflows to an infinity.\<close>

definition fl :: "rat \<Rightarrow> pyfloat" where
  "fl x = (let r = b64_round x
           in if 2 ^ 1024 \<le> r then PInf
              else if r \<le> - (2 ^ 1024) then NInf
              else Finite r)"

subsection \<open>Float arithmetic and comparison\<close>

fun fneg :: "pyfloat \<Rightarrow> pyfloat" where
  "fneg (Finite a) = Finite (- a)"
| "fneg PInf = NInf"
| "fneg NInf = PInf"
| "fneg NaN = NaN"

fun fadd :: "pyfloat \<Rightarrow> pyfloat \<Rightarrow> pyfloat" where
  "fadd (Finite a) (Finite b) = fl (a + b)"
| "fadd NaN y = NaN"
| "fadd x NaN = NaN"
| "fadd PInf NInf = NaN"
| "fadd NInf PInf = NaN"
| "fadd PInf y = PInf"
| "fadd NInf y = NInf"
| "fadd (Finite a) y = y"

definition fsub :: "pyfloat \<Rightarrow> pyfloat \<Rightarrow> pyfloat" where
  "fsub x y = fadd x (fneg y)"

text \<open>The sign of a float: \<open>1\<close>, \<open>0\<close> or \<open>-1\<close>; \<open>None\<close> for a NaN.\<close>

fun fsign :: "pyfloat \<Rightarrow> int option" where
  "fsign (Finite a) = Some (if 0 < a then 1 else if a < 0 then - 1 else 0)"
| "fsign PInf = Some 1"
| "fsign NInf = Some (- 1)"
| "fsign NaN = None"

definition inf_of_sign :: "int \<Rightarrow> pyfloat" where
  "inf_of_sign s = (if 0 < s then PInf else if s < 0 then NInf else NaN)"

fun fmul :: "pyfloat \<Rightarrow> pyfloat \<Rightarrow> pyfloat" where
  "fmul (Finite a) (Finite b) = fl (a * b)"
| "fmul x y =
     (case (fsign x, fsign y) of
        (Some s, Some t) \<Rightarrow> inf_of_sign (s * t)
      | _ \<Rightarrow> NaN)"

text \<open>
  Python's \<^verbatim>\<open>/\<close> on floats raises \<^verbatim>\<open>ZeroDivisionError\<close> when the divisor is
  zero, whatever the dividend; otherwise it is the IEEE division.
\<close>

fun fdiv :: "pyfloat \<Rightarrow> pyfloat \<Rightarrow> pyerror + pyfloat" where
  "fdiv x (Finite b) =
     (if b = 0 then Inl ZeroDivisionError
      else case x of
             Finite a \<Rightarrow> Inr (fl (a / b))
           | NaN \<Rightarrow> Inr NaN
           | _ \<Rightarrow> Inr (if 0 < b then x else fneg x))"
| "fdiv x NaN = Inr NaN"
| "fdiv (Finite a) y = Inr (Finite 0)"
| "fdiv x y = Inr NaN"

text \<open>\<^verbatim>\<open>x <= y\<close> on floats: false as soon as one side is a NaN.\<close>

fun fle :: "pyfloat \<Rightarrow> pyfloat \<Rightarrow> bool" where
  "fle (Finite a) (Finite b) = (a \<le> b)"
| "fle NaN y = False"
| "fle x NaN = False"
| "fle NInf y = True"
| "fle x PInf = True"
| "fle x y = False"

text \<open>\<^verbatim>\<open>x < y\<close> on floats.\<close>

fun flt :: "pyfloat \<Rightarrow> pyfloat \<Rightarrow> bool" where
  "flt (Finite a) (Finite b) = (a < b)"
| "flt NaN y = False"
| "flt x NaN = False"
| "flt PInf y = False"
| "flt x NInf = False"
| "flt x y = True"

text \<open>
  The conversion of an int to a float, which arithmetic between an int and a float
  performs on the int: the nearest float, and \<^verbatim>\<open>OverflowError\<close> when the int is too
  large.
\<close>

definition float_of_int :: "int \<Rightarrow> pyerror + pyfloat" where
  "float_of_int i = (case fl (of_int i) of
                       Finite r \<Rightarrow> Inr (Finite r)
                     | _ \<Rightarrow> Inl OverflowError)"

text \<open>
  \<^verbatim>\<open>round(x)\<close> of a float, with one argument: the nearest int, ties to even;
  \<^verbatim>\<open>OverflowError\<close> on an infinity and \<^verbatim>\<open>ValueError\<close> on a NaN.
\<close>

fun py_round :: "pyfloat \<Rightarrow> pyerror + int" where
  "py_round (Finite a) = Inr (round_half_even a)"
| "py_round NaN = Inl ValueError"
| "py_round x = Inl OverflowError"

text \<open>A decimal float literal of the source denotes the nearest float.\<close>

abbreviation lit :: "rat \<Rightarrow> pyfloat" where
  "lit x \<equiv> fl x"

section \<open>The breakpoint tables\<close>

text \<open>
  Each entry is \<open>(BP_lo, BP_hi, I_lo, I_hi)\<close>.  The PM10 table is written with int
  literals in the source; its bounds are small ints, whose conversion to float is
  exact, so the table is given with the float of each.
\<close>

type_synonym breakpoint = "pyfloat \<times> pyfloat \<times> int \<times> int"

definition PM25_BREAKPOINTS :: "breakpoint list" where
  "PM25_BREAKPOINTS =
     [(lit 0, lit 12, 0, 50),
      (lit (121 / 10), lit (354 / 10), 51, 100),
      (lit (355 / 10), lit (554 / 10), 101, 150),
      (lit (555 / 10), lit (1504 / 10), 151, 200),
      (lit (1505 / 10), lit (2504 / 10), 201, 300),
      (lit (2505 / 10), lit (3504 / 10), 301, 400),
      (lit (3505 / 10), lit (5004 / 10), 401, 500)]"

definition PM10_BREAKPOINTS :: "breakpoint list" where
  "PM10_BREAKPOINTS =
     [(lit 0, lit 54, 0, 50),
      (lit 55, lit 154, 51, 100),
      (lit 155, lit 254, 101, 150),
      (lit 255, lit 354, 151, 200),
      (lit 355, lit 424, 201, 300),
      (lit 425, lit 504, 301, 400),
      (lit 505, lit 604, 401, 500)]"

section \<open>The index calculator\<close>

text \<open>
  The body of the loop of \<^verbatim>\<open>aqi_for_concentration\<close> for the entry that contains
  the concentration:
  \<^verbatim>\<open>aqi = (i_hi - i_lo) / (bp_hi - bp_lo) * (C - bp_lo) + i_lo\<close>, then
  \<^verbatim>\<open>int(round(aqi))\<close>.  The int operands are converted to float where they meet a
  float, the left operand first.
\<close>

definition interpolate :: "pyfloat \<Rightarrow> breakpoint \<Rightarrow> pyerror + int" where
  "interpolate C bp =
     (case bp of (bp_lo, bp_hi, i_lo, i_hi) \<Rightarrow>
        (case float_of_int (i_hi - i_lo) of
           Inl e \<Rightarrow> Inl e
         | Inr n \<Rightarrow>
             (case fdiv n (fsub bp_hi bp_lo) of
                Inl e \<Rightarrow> Inl e
              | Inr q \<Rightarrow>
                  (case float_of_int i_lo of
                     Inl e \<Rightarrow> Inl e
                   | Inr l \<Rightarrow> py_round (fadd (fmul q (fsub C bp_lo)) l)))))"

text \<open>\<^verbatim>\<open>bp_lo <= C <= bp_hi\<close>\<close>

definition in_range :: "pyfloat \<Rightarrow> breakpoint \<Rightarrow> bool" where
  "in_range C bp = (case bp of (bp_lo, bp_hi, i_lo, i_hi) \<Rightarrow> fle bp_lo C \<and> fle C bp_hi)"

fun aqi_for_concentration :: "pyfloat \<Rightarrow> breakpoint list \<Rightarrow> pyerror + int option" where
  "aqi_for_concentration C [] = Inr None"
| "aqi_for_concentration C (bp # breakpoints) =
     (if in_range C bp
      then (case interpolate C bp of Inl e \<Rightarrow> Inl e | Inr aqi \<Rightarrow> Inr (Some aqi))
      else aqi_for_concentration C breakpoints)"

fun aqi_category :: "int \<Rightarrow> string" where
  "aqi_category aqi =
     (if aqi \<le> 50 then ''Good''
      else if aqi \<le> 100 then ''Moderate''
      else if aqi \<le> 150 then ''Unhealthy for Sensitive Groups''
      else if aqi \<le> 200 then ''Unhealthy''
      else if aqi \<le> 300 then ''Very Unhealthy''
      else ''Hazardous'')"

subsection \<open>The pollutant names\<close>

text \<open>
  A Python string is the list of its code points.  \<^verbatim>\<open>str.strip()\<close> removes the
  white space at both ends; the white-space code points are 9 to 13, 28 to 32, 133, 160,
  5760, 8192 to 8202, 8232, 8233, 8239, 8287 and 12288.
\<close>

type_synonym pystr = "nat list"

text \<open>A string literal of the source, all of whose characters are ASCII.\<close>

definition str :: "string \<Rightarrow> pystr" where
  "str s = map of_char s"

definition py_isspace :: "nat \<Rightarrow> bool" where
  "py_isspace n =
     ((9 \<le> n \<and> n \<le> 13) \<or> (28 \<le> n \<and> n \<le> 32) \<or> n = 133 \<or> n = 160 \<or> n = 5760
      \<or> (8192 \<le> n \<and> n \<le> 8202) \<or> n = 8232 \<or> n = 8233 \<or> n = 8239 \<or> n = 8287
      \<or> n = 12288)"

definition strip :: "pystr \<Rightarrow> pystr" where
  "strip s = rev (dropWhile py_isspace (rev (dropWhile py_isspace s)))"

text \<open>
  \<^verbatim>\<open>str.lower()\<close> of a string of ASCII characters moves the letters A to Z up by 32
  and leaves the rest.  On a string with a code point above 127 it follows the case
  tables of the Unicode version of the Python runtime, which are no part of the
  program: that part of \<^verbatim>\<open>str.lower\<close> is the parameter \<open>unicode_lower\<close>, and every
  function below that lower-cases a key takes it.  Nothing is assumed of it.
\<close>

definition lower_ascii :: "nat \<Rightarrow> nat" where
  "lower_ascii n = (if 65 \<le> n \<and> n \<le> 90 then n + 32 else n)"

definition lower :: "(pystr \<Rightarrow> pystr) \<Rightarrow> pystr \<Rightarrow> pystr" where
  "lower unicode_lower s =
     (if list_all (\<lambda>n. n < 128) s then map lower_ascii s else unicode_lower s)"

subsection \<open>All pollutants of a reading set\<close>

text \<open>
  A concentration is a float or an int (the demo has both).  \<^verbatim>\<open>float(v)\<close> is the
  identity on a float and the conversion of an int, which raises \<^verbatim>\<open>OverflowError\<close>
  on an int too large for a float.
\<close>

datatype pynum = PyFloat pyfloat | PyInt int

fun py_float :: "pynum \<Rightarrow> pyerror + pyfloat" where
  "py_float (PyFloat x) = Inr x"
| "py_float (PyInt i) = float_of_int i"

text \<open>
  A dict is the list of its items in insertion order, its keys distinct; the assignment
  \<^verbatim>\<open>results[k] = v\<close> is \<open>AList.update\<close>.  The loop of
  \<^verbatim>\<open>compute_aqi_for_pollutants\<close> takes the items left to visit and the results so far.
  \<^verbatim>\<open>float(v)\<close> is evaluated before the call of \<^verbatim>\<open>aqi_for_concentration\<close>, and only
  under a supported key.
\<close>

fun compute_loop ::
  "(pystr \<Rightarrow> pystr) \<Rightarrow> (pystr \<times> pynum) list \<Rightarrow> (pystr \<times> int option) list
    \<Rightarrow> pyerror + (pystr \<times> int option) list" where
  "compute_loop unicode_lower [] results = Inr results"
| "compute_loop unicode_lower ((k, v) # items) results =
     (let key = lower unicode_lower (strip k)
      in if key = str ''pm2.5'' \<or> key = str ''pm25''
         then (case py_float v of
                 Inl e \<Rightarrow> Inl e
               | Inr C \<Rightarrow>
                   (case aqi_for_concentration C PM25_BREAKPOINTS of
                      Inl e \<Rightarrow> Inl e
                    | Inr r \<Rightarrow> compute_loop unicode_lower items (AList.update k r results)))
         else if key = str ''pm10''
         then (case py_float v of
                 Inl e \<Rightarrow> Inl e
               | Inr C \<Rightarrow>
                   (case aqi_for_concentration C PM10_BREAKPOINTS of
                      Inl e \<Rightarrow> Inl e
                    | Inr r \<Rightarrow> compute_loop unicode_lower items (AList.update k r results)))
         else compute_loop unicode_lower items (AList.update k None results))"

definition compute_aqi_for_pollutants ::
  "(pystr \<Rightarrow> pystr) \<Rightarrow> (pystr \<times> pynum) list \<Rightarrow> pyerror + (pystr \<times> int option) list" where
  "compute_aqi_for_pollutants unicode_lower concs = compute_loop unicode_lower concs []"

text \<open>The keys that select a table: \<open>pm2.5\<close>, \<open>pm25\<close> or \<open>pm10\<close> once trimmed and lower-cased.\<close>

definition supported :: "(pystr \<Rightarrow> pystr) \<Rightarrow> pystr \<Rightarrow> bool" where
  "supported unicode_lower k =
     (let key = lower unicode_lower (strip k)
      in key = str ''pm2.5'' \<or> key = str ''pm25'' \<or> key = str ''pm10'')"

text \<open>\<^verbatim>\<open>float(v)\<close> returns.\<close>

definition converts :: "pynum \<Rightarrow> bool" where
  "converts v = (case py_float v of Inl e \<Rightarrow> False | Inr C \<Rightarrow> True)"

text \<open>
  What the loop stores for one reading: the key itself, with the index that the table
  selected by the trimmed, lower-cased key gives for \<^verbatim>\<open>float(v)\<close>, or \<open>None\<close> for any
  other key.
\<close>

definition reading_result ::
  "(pystr \<Rightarrow> pystr) \<Rightarrow> pystr \<times> pynum \<Rightarrow> pystr \<times> int option \<Rightarrow> bool" where
  "reading_result unicode_lower reading entry =
     (case (reading, entry) of
        ((k, v), (k', r)) \<Rightarrow>
          k' = k
          \<and> (if lower unicode_lower (strip k) = str ''pm2.5''
                  \<or> lower unicode_lower (strip k) = str ''pm25''
               then (case py_float v of
                       Inl e \<Rightarrow> False
                     | Inr C \<Rightarrow> aqi_for_concentration C PM25_BREAKPOINTS = Inr r)
               else if lower unicode_lower (strip k) = str ''pm10''
               then (case py_float v of
                       Inl e \<Rightarrow> False
                     | Inr C \<Rightarrow> aqi_for_concentration C PM10_BREAKPOINTS = Inr r)
               else r = None))"

subsection \<open>The overall index of the demo\<close>

text \<open>
  The main block keeps the int results, \<^verbatim>\<open>[v for v in aqi_results.values() if
  isinstance(v, int)]\<close>, and takes their \<^verbatim>\<open>max\<close> when the list is not empty;
  otherwise there is no overall index.  \<^verbatim>\<open>max\<close> of an empty list raises
  \<^verbatim>\<open>ValueError\<close>.
\<close>

definition valid_aqis :: "(pystr \<times> int option) list \<Rightarrow> int list" where
  "valid_aqis aqi_results = List.map_filter snd aqi_results"

fun py_max :: "int list \<Rightarrow> pyerror + int" where
  "py_max [] = Inl ValueError"
| "py_max (x # xs) = Inr (fold max xs x)"

definition overall :: "(pystr \<times> int option) list \<Rightarrow> pyerror + int option" where
  "overall aqi_results =
     (let valid = valid_aqis aqi_results
      in if valid \<noteq> [] then map_sum id Some (py_max valid) else Inr None)"

text \<open>The sample of the main block.\<close>

definition sample :: "(pystr \<times> pynum) list" where
  "sample =
     [(str ''PM2.5'', PyFloat (lit 35)), (str ''PM10'', PyInt 80),
      (str ''CO'', PyFloat (lit (7 / 10)))]"

definition demo_overall :: "(pystr \<Rightarrow> pystr) \<Rightarrow> pyerror + int option" where
  "demo_overall unicode_lower =
     (case compute_aqi_for_pollutants unicode_lower sample of
        Inl e \<Rightarrow> Inl e
      | Inr aqi_results \<Rightarrow> overall aqi_results)"

section \<open>The calculator as the specification words it\<close>



section \<open>Entries and tables on which the interpolation cannot fail\<close>

text \<open>
  The value of the interpolation for a finite concentration \<open>c\<close>, with the slope
  \<open>q\<close>, the lower bound \<open>lo\<close> and the lower index \<open>l\<close> as numbers.
\<close>

definition interp_val :: "rat \<Rightarrow> rat \<Rightarrow> rat \<Rightarrow> rat \<Rightarrow> int" where
  "interp_val q lo l c =
     round_half_even (b64_round (b64_round (q * b64_round (c - lo)) + l))"

text \<open>
  A checkable condition on an entry: its bounds are finite and in order, the slope and
  the lower index are finite and not negative, no intermediate result at the upper
  bound exceeds 1024, and the interpolation gives the entry's two indices at its two
  bounds.
\<close>

definition entry_ok :: "breakpoint \<Rightarrow> bool" where
  "entry_ok bp =
     (case bp of
        (Finite lo, Finite hi, i_lo, i_hi) \<Rightarrow>
          (case (float_of_int (i_hi - i_lo), fsub (Finite hi) (Finite lo), float_of_int i_lo) of
             (Inr n, Finite d, Inr (Finite l)) \<Rightarrow>
               (case fdiv n (Finite d) of
                  Inr (Finite q) \<Rightarrow>
                    lo \<le> hi \<and> 0 \<le> q \<and> 0 \<le> l \<and> d \<le> 1024
                    \<and> b64_round (q * d) \<le> 1024
                    \<and> b64_round (b64_round (q * d) + l) \<le> 1024
                    \<and> interp_val q lo l lo = i_lo \<and> interp_val q lo l hi = i_hi
                | _ \<Rightarrow> False)
           | _ \<Rightarrow> False)
      | _ \<Rightarrow> False)"

text \<open>One entry lies wholly below another, in concentration and in index.\<close>

definition before :: "breakpoint \<Rightarrow> breakpoint \<Rightarrow> bool" where
  "before bp bp' =
     (case (bp, bp') of
        ((lo, hi, i_lo, i_hi), (lo', hi', i_lo', i_hi')) \<Rightarrow> flt hi lo' \<and> i_hi \<le> i_lo')"

fun table_ok :: "breakpoint list \<Rightarrow> bool" where
  "table_ok [] = True"
| "table_ok (bp # bps) = (entry_ok bp \<and> list_all (before bp) bps \<and> table_ok bps)"

section \<open>Properties of the rounding\<close>

text \<open>The exponent brackets its argument between two powers of two.\<close>


lemma ilog2_bounds: "0 < n \<Longrightarrow> 2 ^ ilog2 n \<le> n \<and> n < 2 ^ Suc (ilog2 n)"
proof (induction n rule: ilog2.induct)
  case (1 n)
  show ?case
  proof (cases "n < 2")
    case True
    with "1.prems" have "n = 1" by simp
    then show ?thesis by (simp add: ilog2.simps)
  next
    case False
    then have pos: "0 < n div 2" by simp
    from "1.IH" [OF False pos]
    have lo: "2 ^ ilog2 (n div 2) \<le> n div 2" and hi: "n div 2 < 2 ^ Suc (ilog2 (n div 2))"
      by simp_all
    have eq: "ilog2 n = Suc (ilog2 (n div 2))"
      using False by (subst ilog2.simps) simp
    from lo have "2 * 2 ^ ilog2 (n div 2) \<le> n" by linarith
    moreover from hi have "n < 2 * 2 ^ Suc (ilog2 (n div 2))" by linarith
    ultimately show ?thesis by (simp add: eq)
  qed
qed

lemma pow2_pos: "0 < (2::rat) powi e"
  by (simp add: zero_less_power_int)

lemma pow2_mono: "a \<le> b \<Longrightarrow> (2::rat) powi a \<le> 2 powi b"
  by (rule power_int_increasing) simp_all

lemma pow2_add: "(2::rat) powi (a + b) = 2 powi a * 2 powi b"
  by (simp add: power_int_add)

lemma expo_bounds:
  assumes "0 < x"
  shows "2 powi expo x \<le> x" and "x < 2 powi (expo x + 1)"
proof -
  have "2 powi expo x \<le> x \<and> x < 2 powi (expo x + 1)"
  proof (cases "1 \<le> x")
    case True
    define n where "n = nat \<lfloor>x\<rfloor>"
    have n: "0 < n" using True by (simp add: n_def)
    have e: "expo x = int (ilog2 n)" using True by (simp add: expo_def n_def)
    have "0 \<le> \<lfloor>x\<rfloor>" using True by simp
    then have nn: "(of_nat n :: rat) = of_int \<lfloor>x\<rfloor>" by (simp add: n_def)
    have fl: "of_nat n \<le> x" "x < of_nat n + 1"
      unfolding nn by linarith+
    from ilog2_bounds [OF n] have b: "2 ^ ilog2 n \<le> n" "n < 2 ^ Suc (ilog2 n)" by simp_all
    have "(of_nat (2 ^ ilog2 n) :: rat) \<le> of_nat n"
      using b(1) by (rule of_nat_mono)
    then have "(2::rat) ^ ilog2 n \<le> of_nat n"
      by (simp only: of_nat_power of_nat_numeral)
    then have lo: "(2::rat) ^ ilog2 n \<le> x" using fl(1) by linarith
    have "n + 1 \<le> 2 ^ Suc (ilog2 n)" using b(2) by simp
    then have "(of_nat (n + 1) :: rat) \<le> of_nat (2 ^ Suc (ilog2 n))"
      by (rule of_nat_mono)
    then have "(of_nat n :: rat) + 1 \<le> 2 ^ Suc (ilog2 n)"
      by (simp only: of_nat_add of_nat_power of_nat_numeral of_nat_1)
    then have hi: "x < 2 ^ Suc (ilog2 n)" using fl(2) by linarith
    have "(2::rat) powi (int (ilog2 n) + 1) = 2 ^ Suc (ilog2 n)"
      by (simp add: power_int_add)
    with lo hi show ?thesis by (simp add: e)
  next
    case False
    define m where "m = nat \<lceil>1 / x\<rceil>"
    define k where "k = Suc (ilog2 (m - 1))"
    have x1: "x < 1" using False by simp
    have inv: "1 < 1 / x" using assms x1 by simp
    then have "1 < \<lceil>1 / x\<rceil>" by (simp add: less_ceiling_iff)
    then have m2: "2 \<le> m" unfolding m_def by linarith
    have e: "expo x = - int k" using False by (simp add: expo_def m_def k_def)
    have "0 \<le> \<lceil>1 / x\<rceil>" using inv by simp
    then have mm: "(of_nat m :: rat) = of_int \<lceil>1 / x\<rceil>" by (simp add: m_def)
    have c: "1 / x \<le> of_nat m" "of_nat m < 1 / x + 1"
      unfolding mm by linarith+
    from ilog2_bounds [of "m - 1"] m2
    have b: "2 ^ ilog2 (m - 1) \<le> m - 1" "m - 1 < 2 ^ k" by (simp_all add: k_def)
    have "m \<le> 2 ^ k" using b(2) by simp
    then have "(of_nat m :: rat) \<le> 2 ^ k"
      by (simp add: of_nat_le_numeral_power_cancel_iff)
    then have "1 / x \<le> 2 ^ k" using c(1) by linarith
    then have "1 \<le> 2 ^ k * x" using assms by (simp add: field_simps)
    then have lo: "1 / 2 ^ k \<le> x" by (simp add: field_simps)
    have "2 ^ ilog2 (m - 1) + 1 \<le> m" using b(1) m2 by simp
    then have "(of_nat (2 ^ ilog2 (m - 1) + 1) :: rat) \<le> of_nat m"
      by (rule of_nat_mono)
    then have "(2::rat) ^ ilog2 (m - 1) + 1 \<le> of_nat m"
      by (simp only: of_nat_add of_nat_power of_nat_numeral of_nat_1)
    then have "(2::rat) ^ ilog2 (m - 1) < 1 / x" using c(2) by linarith
    then have "2 ^ ilog2 (m - 1) * x < 1" using assms by (simp add: field_simps)
    then have hi: "x < 1 / 2 ^ ilog2 (m - 1)" by (simp add: field_simps)
    have p1: "(2::rat) powi (- int k) = 1 / 2 ^ k"
      by (simp add: power_int_minus field_simps)
    have k1: "- int k + 1 = - int (ilog2 (m - 1))" by (simp add: k_def)
    have "(2::rat) powi (- int (ilog2 (m - 1))) = 1 / 2 ^ ilog2 (m - 1)"
      by (simp add: power_int_minus field_simps)
    then have p2: "(2::rat) powi (- int k + 1) = 1 / 2 ^ ilog2 (m - 1)"
      by (simp only: k1)
    show ?thesis unfolding e p1 p2 by (intro conjI lo hi)
  qed
  then show "2 powi expo x \<le> x" and "x < 2 powi (expo x + 1)" by simp_all
qed

lemma expo_mono:
  assumes "0 < x" "x \<le> y"
  shows "expo x \<le> expo y"
proof (rule ccontr)
  assume "\<not> expo x \<le> expo y"
  then have "expo y + 1 \<le> expo x" by simp
  then have "(2::rat) powi (expo y + 1) \<le> 2 powi expo x" by (rule pow2_mono)
  also have "\<dots> \<le> x" using assms(1) by (rule expo_bounds)
  also have "\<dots> \<le> y" by fact
  finally show False using expo_bounds(2) [of y] assms by simp
qed

lemma round_half_even_of_int [simp]: "round_half_even (of_int n) = n"
  by (simp add: round_half_even_def)

lemma round_half_even_mono:
  assumes "x \<le> y"
  shows "round_half_even x \<le> round_half_even y"
proof -
  have fm: "\<lfloor>x\<rfloor> \<le> \<lfloor>y\<rfloor>" using assms by (rule floor_mono)
  show ?thesis
  proof (cases "\<lfloor>x\<rfloor> = \<lfloor>y\<rfloor>")
    case True
    then have "x - of_int \<lfloor>x\<rfloor> \<le> y - of_int \<lfloor>y\<rfloor>" using assms by simp
    then show ?thesis using True by (auto simp: round_half_even_def Let_def)
  next
    case False
    then have lt: "\<lfloor>x\<rfloor> + 1 \<le> \<lfloor>y\<rfloor>" using fm by simp
    have "round_half_even x \<le> \<lfloor>x\<rfloor> + 1" by (auto simp: round_half_even_def Let_def)
    moreover have "\<lfloor>y\<rfloor> \<le> round_half_even y" by (auto simp: round_half_even_def Let_def)
    ultimately show ?thesis using lt by linarith
  qed
qed



text \<open>Rounding to binary64 is monotone on the numbers that are not negative.\<close>

lemma ulp_pos: "0 < ulp x"
  by (simp add: ulp_def pow2_pos)

lemma b64_round_pos:
  "0 < x \<Longrightarrow> b64_round x = of_int (round_half_even (x / ulp x)) * ulp x"
  by (simp add: b64_round_def)

lemma b64_round_zero [simp]: "b64_round 0 = 0"
  by (simp add: b64_round_def)

lemma round_half_even_nonneg: "0 \<le> x \<Longrightarrow> 0 \<le> round_half_even x"
  using round_half_even_mono [of 0 x] round_half_even_of_int [of 0] by simp

lemma b64_round_nonneg:
  assumes "0 \<le> x"
  shows "0 \<le> b64_round x"
proof (cases "x = 0")
  case True
  then show ?thesis by simp
next
  case False
  then have pos: "0 < x" using assms by simp
  have "0 \<le> x / ulp x" using pos ulp_pos [of x] by simp
  then have "0 \<le> round_half_even (x / ulp x)" by (rule round_half_even_nonneg)
  then show ?thesis using ulp_pos [of x] by (simp add: b64_round_pos [OF pos])
qed

text \<open>Rounding never crosses a power of two that a number with the same ulp can reach.\<close>

lemma b64_round_le_pow2:
  assumes pos: "0 < x" and le: "x \<le> 2 powi e" and ex: "max (expo x) (- 1022) \<le> e + 52"
  shows "b64_round x \<le> 2 powi e"
proof -
  define d where "d = e + 52 - max (expo x) (- 1022)"
  have d: "0 \<le> d" using ex by (simp add: d_def)
  have "e = d + (max (expo x) (- 1022) - 52)" by (simp add: d_def)
  then have "(2::rat) powi e = 2 powi d * ulp x"
    unfolding ulp_def by (metis pow2_add)
  also have "(2::rat) powi d = of_int (2 ^ nat d)"
    using d by (simp add: power_int_def)
  finally have pe: "(2::rat) powi e = of_int (2 ^ nat d) * ulp x" .
  have "x / ulp x \<le> of_int (2 ^ nat d)"
    using le ulp_pos [of x] unfolding pe by (simp add: field_simps)
  then have "round_half_even (x / ulp x) \<le> round_half_even (of_int (2 ^ nat d))"
    by (rule round_half_even_mono)
  then have "round_half_even (x / ulp x) \<le> 2 ^ nat d"
    by (simp only: round_half_even_of_int)
  then have "(of_int (round_half_even (x / ulp x)) :: rat) \<le> of_int (2 ^ nat d)"
    by (simp only: of_int_le_iff)
  then have "of_int (round_half_even (x / ulp x)) * ulp x \<le> of_int (2 ^ nat d) * ulp x"
    using ulp_pos [of x] by (simp only: mult_le_cancel_right_pos)
  then show ?thesis unfolding pe b64_round_pos [OF pos] .
qed

lemma b64_round_ge_pow2:
  assumes pos: "0 < x" and ge: "2 powi e \<le> x" and ex: "e + 52 \<ge> max (expo x) (- 1022)"
  shows "2 powi e \<le> b64_round x"
proof -
  define d where "d = e + 52 - max (expo x) (- 1022)"
  have d: "0 \<le> d" using ex by (simp add: d_def)
  have "e = d + (max (expo x) (- 1022) - 52)" by (simp add: d_def)
  then have "(2::rat) powi e = 2 powi d * ulp x"
    unfolding ulp_def by (metis pow2_add)
  also have "(2::rat) powi d = of_int (2 ^ nat d)"
    using d by (simp add: power_int_def)
  finally have pe: "(2::rat) powi e = of_int (2 ^ nat d) * ulp x" .
  have "of_int (2 ^ nat d) \<le> x / ulp x"
    using ge ulp_pos [of x] unfolding pe by (simp add: field_simps)
  then have "round_half_even (of_int (2 ^ nat d)) \<le> round_half_even (x / ulp x)"
    by (rule round_half_even_mono)
  then have "2 ^ nat d \<le> round_half_even (x / ulp x)"
    by (simp only: round_half_even_of_int)
  then have "(of_int (2 ^ nat d) :: rat) \<le> of_int (round_half_even (x / ulp x))"
    by (simp only: of_int_le_iff)
  then have "of_int (2 ^ nat d) * ulp x \<le> of_int (round_half_even (x / ulp x)) * ulp x"
    using ulp_pos [of x] by (simp only: mult_le_cancel_right_pos)
  then show ?thesis unfolding pe b64_round_pos [OF pos] .
qed

lemma b64_round_mono_pos:
  assumes pos: "0 < x" and le: "x \<le> y"
  shows "b64_round x \<le> b64_round y"
proof -
  have posy: "0 < y" using pos le by simp
  define ex where "ex = max (expo x) (- 1022)"
  define ey where "ey = max (expo y) (- 1022)"
  have exy: "ex \<le> ey" using expo_mono [OF pos le] by (simp add: ex_def ey_def)
  show ?thesis
  proof (cases "ex = ey")
    case True
    then have u: "ulp x = ulp y" by (simp add: ulp_def ex_def ey_def)
    have "x / ulp y \<le> y / ulp y" using le ulp_pos [of y] by (simp add: divide_right_mono)
    then have "round_half_even (x / ulp y) \<le> round_half_even (y / ulp y)"
      by (rule round_half_even_mono)
    then have "(of_int (round_half_even (x / ulp y)) :: rat) \<le> of_int (round_half_even (y / ulp y))"
      by (simp only: of_int_le_iff)
    then have "of_int (round_half_even (x / ulp y)) * ulp y
        \<le> of_int (round_half_even (y / ulp y)) * ulp y"
      using ulp_pos [of y] by (simp only: mult_le_cancel_right_pos)
    then show ?thesis unfolding b64_round_pos [OF pos] b64_round_pos [OF posy] u .
  next
    case False
    then have lt: "ex < ey" using exy by simp
    then have "- 1022 < ey" by (simp add: ex_def)
    then have ey: "ey = expo y" by (simp add: ey_def)
    have "expo x + 1 \<le> ey" using lt by (simp add: ex_def)
    then have "(2::rat) powi (expo x + 1) \<le> 2 powi ey" by (rule pow2_mono)
    then have xle: "x \<le> 2 powi ey" using expo_bounds(2) [OF pos] by linarith
    have yge: "2 powi ey \<le> y" unfolding ey using posy by (rule expo_bounds)
    have "b64_round x \<le> 2 powi ey"
      using pos xle by (rule b64_round_le_pow2) (use lt in \<open>simp add: ex_def\<close>)
    moreover have "2 powi ey \<le> b64_round y"
      using posy yge by (rule b64_round_ge_pow2) (simp add: ey_def)
    ultimately show ?thesis by simp
  qed
qed

lemma b64_round_mono:
  assumes "0 \<le> x" "x \<le> y"
  shows "b64_round x \<le> b64_round y"
proof (cases "x = 0")
  case True
  then show ?thesis using b64_round_nonneg [of y] assms by simp
next
  case False
  then show ?thesis using assms by (simp add: b64_round_mono_pos)
qed

subsection \<open>Results that stay finite\<close>

lemma fl_Finite:
  assumes "0 \<le> x" "b64_round x \<le> 1024"
  shows "fl x = Finite (b64_round x)"
proof -
  have "(1024::rat) < 2 ^ 1024" by simp
  then have "b64_round x < 2 ^ 1024" using assms(2) by linarith
  moreover have "- (2 ^ 1024) < b64_round x"
    using b64_round_nonneg [OF assms(1)] by (simp add: less_le_trans [of _ 0])
  ultimately show ?thesis by (simp add: fl_def Let_def)
qed

lemma fl_Finite_mono:
  assumes "0 \<le> x" "x \<le> y" "b64_round y \<le> 1024"
  shows "fl x = Finite (b64_round x)" and "b64_round x \<le> b64_round y"
proof -
  show le: "b64_round x \<le> b64_round y" using assms(1,2) by (rule b64_round_mono)
  then have "b64_round x \<le> 1024" using assms(3) by linarith
  with assms(1) show "fl x = Finite (b64_round x)" by (rule fl_Finite)
qed

lemma fl_eq_FiniteD: "fl x = Finite d \<Longrightarrow> d = b64_round x"
  by (simp add: fl_def Let_def split: if_splits)

lemma interp_val_mono:
  assumes "0 \<le> q" "0 \<le> l" "lo \<le> c1" "c1 \<le> c2"
  shows "interp_val q lo l c1 \<le> interp_val q lo l c2"
proof -
  have t: "b64_round (c1 - lo) \<le> b64_round (c2 - lo)"
    using assms(3,4) by (intro b64_round_mono) simp_all
  have t0: "0 \<le> b64_round (c1 - lo)"
    using assms(3) by (intro b64_round_nonneg) simp
  have "q * b64_round (c1 - lo) \<le> q * b64_round (c2 - lo)"
    using t assms(1) by (rule mult_left_mono)
  moreover have q0: "0 \<le> q * b64_round (c1 - lo)" using assms(1) t0 by simp
  ultimately have p: "b64_round (q * b64_round (c1 - lo)) \<le> b64_round (q * b64_round (c2 - lo))"
    by (intro b64_round_mono)
  have p0: "0 \<le> b64_round (q * b64_round (c1 - lo))" using q0 by (rule b64_round_nonneg)
  have "b64_round (b64_round (q * b64_round (c1 - lo)) + l)
      \<le> b64_round (b64_round (q * b64_round (c2 - lo)) + l)"
    using p p0 assms(2) by (intro b64_round_mono) simp_all
  then show ?thesis unfolding interp_val_def by (rule round_half_even_mono)
qed

lemma entry_okE:
  assumes ok: "entry_ok (blo, bhi, i_lo, i_hi)"
  obtains lo hi n d l q where
    "blo = Finite lo" "bhi = Finite hi"
    "float_of_int (i_hi - i_lo) = Inr n" "fsub (Finite hi) (Finite lo) = Finite d"
    "float_of_int i_lo = Inr (Finite l)" "fdiv n (Finite d) = Inr (Finite q)"
    "lo \<le> hi" "0 \<le> q" "0 \<le> l" "d \<le> 1024" "b64_round (q * d) \<le> 1024"
    "b64_round (b64_round (q * d) + l) \<le> 1024"
    "interp_val q lo l lo = i_lo" "interp_val q lo l hi = i_hi"
proof -
  obtain lo hi where bl: "blo = Finite lo" "bhi = Finite hi"
    using ok by (cases blo; cases bhi) (simp_all add: entry_ok_def)
  note ok' = ok [unfolded bl entry_ok_def, simplified]
  obtain n where n: "float_of_int (i_hi - i_lo) = Inr n"
    using ok' by (cases "float_of_int (i_hi - i_lo)") simp_all
  obtain d where d: "fsub (Finite hi) (Finite lo) = Finite d"
    using ok' n by (cases "fsub (Finite hi) (Finite lo)") simp_all
  obtain l where l: "float_of_int i_lo = Inr (Finite l)"
  proof (cases "float_of_int i_lo")
    case (Inl e)
    then show ?thesis using ok' n d by simp
  next
    case (Inr y)
    then show ?thesis using ok' n d that by (cases y) simp_all
  qed
  obtain q where q: "fdiv n (Finite d) = Inr (Finite q)"
  proof (cases "fdiv n (Finite d)")
    case (Inl e)
    then show ?thesis using ok' n d l by simp
  next
    case (Inr y)
    then show ?thesis using ok' n d l that by (cases y) simp_all
  qed
  from ok' n d l q have
    "lo \<le> hi" "0 \<le> q" "0 \<le> l" "d \<le> 1024" "b64_round (q * d) \<le> 1024"
    "b64_round (b64_round (q * d) + l) \<le> 1024"
    "interp_val q lo l lo = i_lo" "interp_val q lo l hi = i_hi"
    by simp_all
  with bl n d l q show thesis by (rule that)
qed

lemma interpolate_Finite:
  assumes ok: "entry_ok (Finite lo, Finite hi, i_lo, i_hi)"
  obtains q l where "0 \<le> q" "0 \<le> l"
    "\<And>c. lo \<le> c \<Longrightarrow> c \<le> hi \<Longrightarrow>
       interpolate (Finite c) (Finite lo, Finite hi, i_lo, i_hi) = Inr (interp_val q lo l c)"
    "interp_val q lo l lo = i_lo" "interp_val q lo l hi = i_hi"
proof -
  from ok obtain n d l q where
    n: "float_of_int (i_hi - i_lo) = Inr n" and d: "fsub (Finite hi) (Finite lo) = Finite d" and
    l: "float_of_int i_lo = Inr (Finite l)" and q: "fdiv n (Finite d) = Inr (Finite q)" and
    pos: "0 \<le> q" "0 \<le> l" and
    b: "d \<le> 1024" "b64_round (q * d) \<le> 1024" "b64_round (b64_round (q * d) + l) \<le> 1024" and
    e: "interp_val q lo l lo = i_lo" "interp_val q lo l hi = i_hi"
    by (elim entry_okE) auto
  have dd: "d = b64_round (hi - lo)" using d by (simp add: fsub_def fl_eq_FiniteD)
  have "interpolate (Finite c) (Finite lo, Finite hi, i_lo, i_hi) = Inr (interp_val q lo l c)"
    if c: "lo \<le> c" "c \<le> hi" for c
  proof -
    define t where "t = b64_round (c - lo)"
    define p where "p = b64_round (q * t)"
    have "0 \<le> c - lo" "c - lo \<le> hi - lo" using c by simp_all
    from fl_Finite_mono [OF this] b(1)
    have t: "fl (c - lo) = Finite t" "t \<le> d" by (simp_all add: dd t_def)
    have t0: "0 \<le> t" unfolding t_def using c by (intro b64_round_nonneg) simp
    have "0 \<le> q * t" "q * t \<le> q * d" using pos(1) t0 t(2) by (simp_all add: mult_left_mono)
    from fl_Finite_mono [OF this b(2)]
    have p: "fl (q * t) = Finite p" "p \<le> b64_round (q * d)" by (simp_all add: p_def)
    have p0: "0 \<le> p" unfolding p_def using pos(1) t0 by (intro b64_round_nonneg) simp
    have "0 \<le> p + l" "p + l \<le> b64_round (q * d) + l" using p0 pos(2) p(2) by simp_all
    from fl_Finite_mono(1) [OF this b(3)]
    have s: "fl (p + l) = Finite (b64_round (p + l))" .
    show ?thesis
      using n d l q t(1) p(1) s
      by (simp add: interpolate_def fsub_def interp_val_def t_def p_def)
  qed
  with pos e show thesis using that by blast
qed

subsection \<open>One entry\<close>

lemma in_range_FiniteD:
  assumes "in_range C (Finite lo, Finite hi, i_lo, i_hi)"
  obtains c where "C = Finite c" "lo \<le> c" "c \<le> hi"
  using assms by (cases C) (simp_all add: in_range_def)

lemma interpolate_in_range:
  assumes ok: "entry_ok (blo, bhi, i_lo, i_hi)" and r: "in_range C (blo, bhi, i_lo, i_hi)"
  shows "\<exists>i. interpolate C (blo, bhi, i_lo, i_hi) = Inr i \<and> i_lo \<le> i \<and> i \<le> i_hi"
proof -
  from ok obtain lo hi where bl: "blo = Finite lo" "bhi = Finite hi" by (rule entry_okE)
  from r obtain c where c: "C = Finite c" "lo \<le> c" "c \<le> hi"
    unfolding bl by (rule in_range_FiniteD)
  from ok obtain q l where ql: "0 \<le> q" "0 \<le> l"
    "\<And>c. lo \<le> c \<Longrightarrow> c \<le> hi \<Longrightarrow>
       interpolate (Finite c) (Finite lo, Finite hi, i_lo, i_hi) = Inr (interp_val q lo l c)"
    "interp_val q lo l lo = i_lo" "interp_val q lo l hi = i_hi"
    unfolding bl by (rule interpolate_Finite) blast
  have "interp_val q lo l lo \<le> interp_val q lo l c"
    using ql(1,2) c(2) by (intro interp_val_mono) simp_all
  moreover have "interp_val q lo l c \<le> interp_val q lo l hi"
    using ql(1,2) c(2,3) by (intro interp_val_mono)
  ultimately show ?thesis using ql(3) [OF c(2,3)] ql(4,5) by (simp add: bl c(1))
qed

lemma interpolate_mono:
  assumes ok: "entry_ok (blo, bhi, i_lo, i_hi)"
    and r1: "in_range C1 (blo, bhi, i_lo, i_hi)" and r2: "in_range C2 (blo, bhi, i_lo, i_hi)"
    and le: "fle C1 C2"
    and i1: "interpolate C1 (blo, bhi, i_lo, i_hi) = Inr i1"
    and i2: "interpolate C2 (blo, bhi, i_lo, i_hi) = Inr i2"
  shows "i1 \<le> i2"
proof -
  from ok obtain lo hi where bl: "blo = Finite lo" "bhi = Finite hi" by (rule entry_okE)
  from r1 obtain c1 where c1: "C1 = Finite c1" "lo \<le> c1" "c1 \<le> hi"
    unfolding bl by (rule in_range_FiniteD)
  from r2 obtain c2 where c2: "C2 = Finite c2" "lo \<le> c2" "c2 \<le> hi"
    unfolding bl by (rule in_range_FiniteD)
  have c12: "c1 \<le> c2" using le by (simp add: c1(1) c2(1))
  from ok obtain q l where ql: "0 \<le> q" "0 \<le> l"
    "\<And>c. lo \<le> c \<Longrightarrow> c \<le> hi \<Longrightarrow>
       interpolate (Finite c) (Finite lo, Finite hi, i_lo, i_hi) = Inr (interp_val q lo l c)"
    unfolding bl by (rule interpolate_Finite) blast
  have "i1 = interp_val q lo l c1" using i1 ql(3) [OF c1(2,3)] by (simp add: bl c1(1))
  moreover have "i2 = interp_val q lo l c2" using i2 ql(3) [OF c2(2,3)] by (simp add: bl c2(1))
  ultimately show ?thesis using interp_val_mono [OF ql(1,2) c1(2) c12] by simp
qed

subsection \<open>A whole table\<close>

lemma aqi_for_concentration_no_match:
  "\<forall>bp \<in> set bps. \<not> in_range C bp \<Longrightarrow> aqi_for_concentration C bps = Inr None"
  by (induction bps) simp_all

lemma aqi_for_concentration_total:
  "table_ok bps \<Longrightarrow> \<exists>r. aqi_for_concentration C bps = Inr r"
proof (induction bps)
  case Nil
  show ?case by simp
next
  case (Cons bp bps)
  obtain blo bhi i_lo i_hi where bp: "bp = (blo, bhi, i_lo, i_hi)" by (cases bp)
  show ?case
  proof (cases "in_range C bp")
    case True
    from Cons.prems have "entry_ok (blo, bhi, i_lo, i_hi)" by (simp add: bp)
    from interpolate_in_range [OF this True [unfolded bp]]
    show ?thesis using True by (auto simp: bp)
  next
    case False
    then show ?thesis using Cons by simp
  qed
qed

lemma aqi_for_concentration_Some:
  assumes "table_ok bps" "aqi_for_concentration C bps = Inr (Some i)"
  shows "\<exists>blo bhi i_lo i_hi. (blo, bhi, i_lo, i_hi) \<in> set bps
           \<and> in_range C (blo, bhi, i_lo, i_hi) \<and> i_lo \<le> i \<and> i \<le> i_hi"
  using assms
proof (induction bps)
  case Nil
  then show ?case by simp
next
  case (Cons bp bps)
  obtain blo bhi i_lo i_hi where bp: "bp = (blo, bhi, i_lo, i_hi)" by (cases bp)
  show ?case
  proof (cases "in_range C bp")
    case True
    from Cons.prems have "entry_ok (blo, bhi, i_lo, i_hi)" by (simp add: bp)
    from interpolate_in_range [OF this True [unfolded bp]]
    obtain j where "interpolate C (blo, bhi, i_lo, i_hi) = Inr j" "i_lo \<le> j" "j \<le> i_hi"
      by blast
    moreover from this(1) Cons.prems(2) True have "i = j" by (simp add: bp)
    ultimately show ?thesis using True unfolding bp by (intro exI [of _ blo] exI [of _ bhi] exI [of _ i_lo] exI [of _ i_hi]) simp
  next
    case False
    with Cons.prems have "table_ok bps" "aqi_for_concentration C bps = Inr (Some i)" by simp_all
    from Cons.IH [OF this] show ?thesis by auto
  qed
qed

lemma range_order:
  assumes "in_range C1 (lo1, hi1, a1, b1)" "in_range C2 (lo2, hi2, a2, b2)"
    "fle C1 C2" "flt hi2 lo1"
  shows False
  using assms by (cases C1; cases C2; cases lo1; cases hi2) (simp_all add: in_range_def)

lemma aqi_for_concentration_mono:
  assumes "table_ok bps"
    "aqi_for_concentration C1 bps = Inr (Some i1)" "aqi_for_concentration C2 bps = Inr (Some i2)"
    "fle C1 C2"
  shows "i1 \<le> i2"
  using assms
proof (induction bps)
  case Nil
  then show ?case by simp
next
  case (Cons bp bps)
  obtain blo bhi i_lo i_hi where bp: "bp = (blo, bhi, i_lo, i_hi)" by (cases bp)
  from Cons.prems(1) have ok: "entry_ok (blo, bhi, i_lo, i_hi)"
    and bf: "\<forall>bp' \<in> set bps. before (blo, bhi, i_lo, i_hi) bp'" and tab: "table_ok bps"
    by (simp_all add: bp list_all_iff)
  consider (both) "in_range C1 bp" "in_range C2 bp"
    | (first) "in_range C1 bp" "\<not> in_range C2 bp"
    | (second) "\<not> in_range C1 bp" "in_range C2 bp"
    | (neither) "\<not> in_range C1 bp" "\<not> in_range C2 bp"
    by blast
  then show ?case
  proof cases
    case both
    from interpolate_in_range [OF ok both(1) [unfolded bp]] Cons.prems(2) both(1)
    have j1: "interpolate C1 (blo, bhi, i_lo, i_hi) = Inr i1" by (auto simp: bp)
    from interpolate_in_range [OF ok both(2) [unfolded bp]] Cons.prems(3) both(2)
    have j2: "interpolate C2 (blo, bhi, i_lo, i_hi) = Inr i2" by (auto simp: bp)
    from ok both [unfolded bp] Cons.prems(4) j1 j2 show ?thesis by (rule interpolate_mono)
  next
    case first
    from interpolate_in_range [OF ok first(1) [unfolded bp]] Cons.prems(2) first(1)
    have "i1 \<le> i_hi" by (auto simp: bp)
    moreover from Cons.prems(3) first(2) have "aqi_for_concentration C2 bps = Inr (Some i2)"
      by simp
    from aqi_for_concentration_Some [OF tab this] obtain lo' hi' a' b'
      where "(lo', hi', a', b') \<in> set bps" "a' \<le> i2" by blast
    moreover from this(1) bf have "i_hi \<le> a'" by (auto simp: before_def)
    ultimately show ?thesis by linarith
  next
    case second
    from Cons.prems(2) second(1) have "aqi_for_concentration C1 bps = Inr (Some i1)" by simp
    from aqi_for_concentration_Some [OF tab this] obtain lo' hi' a' b'
      where m: "(lo', hi', a', b') \<in> set bps" "in_range C1 (lo', hi', a', b')" by blast
    from m(1) bf have "flt bhi lo'" by (auto simp: before_def)
    from range_order [OF m(2) second(2) [unfolded bp] Cons.prems(4) this] show ?thesis ..
  next
    case neither
    with Cons.prems have "aqi_for_concentration C1 bps = Inr (Some i1)"
      "aqi_for_concentration C2 bps = Inr (Some i2)" by simp_all
    from Cons.IH [OF tab this Cons.prems(4)] show ?thesis .
  qed
qed

subsection \<open>Evaluation on numerals\<close>

lemma floor_rat_numeral_div:
  "\<lfloor>numeral a / numeral b :: rat\<rfloor> = numeral a div numeral b"
  by (metis floor_divide_of_int_eq of_int_numeral)

lemma ceiling_rat_numeral_div:
  "\<lceil>numeral a / numeral b :: rat\<rceil> = - (- numeral a div numeral b)"
  by (metis ceiling_def floor_divide_of_int_eq minus_divide_left of_int_minus of_int_numeral)

lemmas ilog2_eval =
  ilog2.simps [of "numeral k"] ilog2.simps [of "Suc 0"] ilog2.simps [of 1] ilog2.simps [of 0] for k

lemmas expo_eval =
  expo_def [of "numeral a"] expo_def [of "numeral a / numeral b"]
  expo_def [of "1 / numeral b"] expo_def [of 1] for a b

lemmas ulp_eval =
  ulp_def [of "numeral a"] ulp_def [of "numeral a / numeral b"]
  ulp_def [of "1 / numeral b"] ulp_def [of 1] for a b

lemmas round_half_even_eval =
  round_half_even_def [of "numeral a"] round_half_even_def [of "numeral a / numeral b"]
  round_half_even_def [of "1 / numeral b"] round_half_even_def [of 1]
  round_half_even_def [of 0] for a b

lemmas b64_round_eval =
  b64_round_def [of "numeral a"] b64_round_def [of "numeral a / numeral b"]
  b64_round_def [of "1 / numeral b"] b64_round_def [of 1] b64_round_def [of 0] for a b

lemmas float_eval =
  floor_rat_numeral_div ceiling_rat_numeral_div ilog2_eval expo_eval ulp_eval
  round_half_even_eval b64_round_eval Let_def fl_def float_of_int_def fsub_def

lemma PM25_BREAKPOINTS_eval:
  "PM25_BREAKPOINTS =
     [(Finite 0, Finite 12, 0, 50),
      (Finite (6811694436397875 / 562949953421312),
       Finite (4982107087778611 / 140737488355328), 51, 100),
      (Finite (71 / 2), Finite (7796856854885171 / 140737488355328), 101, 150),
      (Finite (111 / 2), Finite (5291729562160333 / 35184372088832), 151, 200),
      (Finite (301 / 2), Finite (8810166771043533 / 35184372088832), 201, 300),
      (Finite (501 / 2), Finite (3082150994981683 / 8796093022208), 301, 400),
      (Finite (701 / 2), Finite (4401564948312883 / 8796093022208), 401, 500)]"
  by (simp add: PM25_BREAKPOINTS_def float_eval)

lemma PM10_BREAKPOINTS_eval:
  "PM10_BREAKPOINTS =
     [(Finite 0, Finite 54, 0, 50),
      (Finite 55, Finite 154, 51, 100),
      (Finite 155, Finite 254, 101, 150),
      (Finite 255, Finite 354, 151, 200),
      (Finite 355, Finite 424, 201, 300),
      (Finite 425, Finite 504, 301, 400),
      (Finite 505, Finite 604, 401, 500)]"
  by (simp add: PM10_BREAKPOINTS_def float_eval)

lemma table_ok_PM25: "table_ok PM25_BREAKPOINTS"
  by (simp add: PM25_BREAKPOINTS_eval entry_ok_def before_def interp_val_def float_eval)

lemma table_ok_PM10: "table_ok PM10_BREAKPOINTS"
  by (simp add: PM10_BREAKPOINTS_eval entry_ok_def before_def interp_val_def float_eval)

subsection \<open>Concrete runs\<close>

lemmas calc_eval = in_range_def interpolate_def float_eval

lemma aqi_pm25_35: "aqi_for_concentration (lit 35) PM25_BREAKPOINTS = Inr (Some 99)"
  by (simp add: PM25_BREAKPOINTS_eval calc_eval)

lemma aqi_pm25_10: "aqi_for_concentration (lit 10) PM25_BREAKPOINTS = Inr (Some 42)"
  by (simp add: PM25_BREAKPOINTS_eval calc_eval)

lemma aqi_pm10_80: "aqi_for_concentration (lit 80) PM10_BREAKPOINTS = Inr (Some 63)"
  by (simp add: PM10_BREAKPOINTS_eval calc_eval)

lemma aqi_pm25_gap: "aqi_for_concentration (lit (193 / 16)) PM25_BREAKPOINTS = Inr None"
  by (simp add: PM25_BREAKPOINTS_eval calc_eval)

lemmas str_eval = str_def lower_def lower_ascii_def strip_def py_isspace_def

lemma norm_PM25: "lower unicode_lower (strip (str ''PM2.5'')) = str ''pm2.5''"
  by (simp add: str_eval)

lemma norm_PM10: "lower unicode_lower (strip (str ''PM10'')) = str ''pm10''"
  by (simp add: str_eval)

lemma norm_pm10: "lower unicode_lower (strip (str ''pm10'')) = str ''pm10''"
  by (simp add: str_eval)

lemma norm_CO: "lower unicode_lower (strip (str ''CO'')) = str ''co''"
  by (simp add: str_eval)

lemma norm_spaces: "lower unicode_lower (strip (str '' pm25  '')) = str ''pm25''"
  by (simp add: str_eval)

lemma norm_wide_space: "lower unicode_lower (strip (32 # str ''Pm10'' @ [12288])) = str ''pm10''"
  by (simp add: str_eval)

lemma str_names:
  "str ''co'' \<noteq> str ''pm2.5''" "str ''co'' \<noteq> str ''pm25''" "str ''co'' \<noteq> str ''pm10''"
  "str ''pm10'' \<noteq> str ''pm2.5''" "str ''pm10'' \<noteq> str ''pm25''"
  "str ''PM2.5'' \<noteq> str ''PM10''" "str ''PM2.5'' \<noteq> str ''CO''" "str ''PM10'' \<noteq> str ''CO''"
  by (simp_all add: str_def)

lemma float_of_int_80: "float_of_int 80 = Inr (lit 80)"
  by (simp add: float_eval)

lemma compute_sample:
  "compute_aqi_for_pollutants unicode_lower sample =
     Inr [(str ''PM2.5'', Some 99), (str ''PM10'', Some 63), (str ''CO'', None)]"
  by (simp add: compute_aqi_for_pollutants_def sample_def norm_PM25 norm_PM10 norm_CO
      str_names float_of_int_80 aqi_pm25_35 aqi_pm10_80)

lemma demo_overall_eval: "demo_overall unicode_lower = Inr (Some 99)"
  by (simp add: demo_overall_def compute_sample overall_def valid_aqis_def)

text \<open>
  A key with a space before it and the ideographic space (code point 12288) after it;
  both are stripped.
\<close>

lemma compute_wide_space:
  "compute_aqi_for_pollutants unicode_lower [(32 # str ''Pm10'' @ [12288], PyFloat (lit 80))] =
     Inr [(32 # str ''Pm10'' @ [12288], Some 63)]"
  by (simp add: compute_aqi_for_pollutants_def norm_wide_space str_names aqi_pm10_80)

section \<open>The calculator and the specification's wording of it\<close>








section \<open>The PM2.5 table: range and monotonicity of the index\<close>

lemma aqi_for_concentration_defined:
  assumes "table_ok bps" "\<exists>bp \<in> set bps. in_range C bp"
  shows "\<exists>i. aqi_for_concentration C bps = Inr (Some i)"
  using assms
proof (induction bps)
  case Nil
  then show ?case by simp
next
  case (Cons bp bps)
  obtain blo bhi i_lo i_hi where bp: "bp = (blo, bhi, i_lo, i_hi)" by (cases bp)
  show ?case
  proof (cases "in_range C bp")
    case True
    from Cons.prems(1) have "entry_ok (blo, bhi, i_lo, i_hi)" by (simp add: bp)
    from interpolate_in_range [OF this True [unfolded bp]] True
    show ?thesis by (auto simp: bp)
  next
    case False
    with Cons.prems have "table_ok bps" "\<exists>bp \<in> set bps. in_range C bp" by simp_all
    from Cons.IH [OF this] False show ?thesis by simp
  qed
qed

lemma PM25_index_range:
  assumes "(blo, bhi, i_lo, i_hi) \<in> set PM25_BREAKPOINTS"
  shows "0 \<le> i_lo \<and> i_hi \<le> 500"
  using assms by (auto simp: PM25_BREAKPOINTS_def)

text \<open>
  Claim C2, as the code has it.  Over the PM2.5 table, a concentration that lies in
  one of the ranges of the table has a defined index; every defined index lies in
  \<open>[0, 500]\<close>; and the index does not decrease with the concentration: of two
  concentrations \<open>C1 \<le> C2\<close> with defined indices, the index of \<open>C1\<close> is at most that of
  \<open>C2\<close>.
\<close>

theorem pm25_index_bounded_monotone:
  "((\<exists>bp \<in> set PM25_BREAKPOINTS. in_range C bp) \<longrightarrow>
      (\<exists>i. aqi_for_concentration C PM25_BREAKPOINTS = Inr (Some i)))
   \<and> (aqi_for_concentration C PM25_BREAKPOINTS = Inr (Some i) \<longrightarrow> 0 \<le> i \<and> i \<le> 500)
   \<and> (aqi_for_concentration C1 PM25_BREAKPOINTS = Inr (Some i1)
        \<and> aqi_for_concentration C2 PM25_BREAKPOINTS = Inr (Some i2) \<and> fle C1 C2
        \<longrightarrow> i1 \<le> i2)"
proof (intro conjI impI)
  assume "\<exists>bp \<in> set PM25_BREAKPOINTS. in_range C bp"
  with table_ok_PM25 show "\<exists>i. aqi_for_concentration C PM25_BREAKPOINTS = Inr (Some i)"
    by (rule aqi_for_concentration_defined)
next
  assume a: "aqi_for_concentration C PM25_BREAKPOINTS = Inr (Some i)"
  from aqi_for_concentration_Some [OF table_ok_PM25 a] obtain blo bhi i_lo i_hi
    where m: "(blo, bhi, i_lo, i_hi) \<in> set PM25_BREAKPOINTS" "i_lo \<le> i" "i \<le> i_hi" by blast
  from PM25_index_range [OF m(1)] m(2,3) show "0 \<le> i" and "i \<le> 500" by linarith+
next
  assume "aqi_for_concentration C1 PM25_BREAKPOINTS = Inr (Some i1)
    \<and> aqi_for_concentration C2 PM25_BREAKPOINTS = Inr (Some i2) \<and> fle C1 C2"
  then show "i1 \<le> i2" using aqi_for_concentration_mono [OF table_ok_PM25] by blast
qed

theorem pm25_index_bounded_monotone_witness:
  "list_ex (in_range (lit 35)) PM25_BREAKPOINTS
   \<and> aqi_for_concentration (lit 10) PM25_BREAKPOINTS = Inr (Some 42)
   \<and> aqi_for_concentration (lit 35) PM25_BREAKPOINTS = Inr (Some 99)
   \<and> fle (lit 10) (lit 35) \<and> (42 :: int) \<le> 99 \<and> (0 :: int) \<le> 99 \<and> (99 :: int) \<le> 500"
proof -
  have r: "list_ex (in_range (lit 35)) PM25_BREAKPOINTS"
    by (simp add: PM25_BREAKPOINTS_eval calc_eval)
  have le: "fle (lit 10) (lit 35)" by (simp add: float_eval)
  from pm25_index_bounded_monotone [of "lit 35" 99 "lit 10" 42 "lit 35" 99]
    r le aqi_pm25_10 aqi_pm25_35
  show ?thesis by (simp add: list_ex_iff)
qed

text \<open>
  Claim C2 as stated fails in the gaps of the table: \<open>12.0625\<close> lies in \<open>[0, 500.4]\<close>
  and its index is not defined.
\<close>

theorem pm25_index_undefined_in_gap:
  "fle (lit 0) (lit (193 / 16)) \<and> fle (lit (193 / 16)) (lit (5004 / 10))
   \<and> aqi_for_concentration (lit (193 / 16)) PM25_BREAKPOINTS = Inr None"
  by (simp add: aqi_pm25_gap) (simp add: float_eval)

section \<open>The two published checks\<close>

text \<open>
  Claim C3, as the code has it: the PM2.5 concentration \<open>35.0\<close> has the index \<open>99\<close>.
\<close>

theorem pm25_35_index: "aqi_for_concentration (lit 35) PM25_BREAKPOINTS = Inr (Some 99)"
  by (rule aqi_pm25_35)

text \<open>Claim C3 as stated fails: the index of \<open>35.0\<close> is not \<open>80\<close>.\<close>

theorem pm25_35_index_not_80:
  "aqi_for_concentration (lit 35) PM25_BREAKPOINTS \<noteq> Inr (Some 80)"
  by (simp add: aqi_pm25_35)

text \<open>
  Claim C4, as the code has it: the PM10 concentration \<open>80\<close> has the index \<open>63\<close>.
\<close>

theorem pm10_80_index: "aqi_for_concentration (lit 80) PM10_BREAKPOINTS = Inr (Some 63)"
  by (rule aqi_pm10_80)

text \<open>Claim C4 as stated fails: the index of \<open>80\<close> is not \<open>72\<close>.\<close>

theorem pm10_80_index_not_72:
  "aqi_for_concentration (lit 80) PM10_BREAKPOINTS \<noteq> Inr (Some 72)"
  by (simp add: aqi_pm10_80)

section \<open>Categories\<close>

text \<open>
  Claim C5.  \<open>aqi_category\<close> maps every int to its band by the thresholds 50, 100, 150,
  200 and 300: \<open>Good\<close> up to 50, \<open>Moderate\<close> from 51 to 100, \<open>Unhealthy for Sensitive
  Groups\<close> from 101 to 150, \<open>Unhealthy\<close> from 151 to 200, \<open>Very Unhealthy\<close> from 201 to
  300 and \<open>Hazardous\<close> above 300; 50 is \<open>Good\<close>, 51 is \<open>Moderate\<close> and 301 is
  \<open>Hazardous\<close>.
\<close>

theorem aqi_category_bands:
  "(aqi \<le> 50 \<longrightarrow> aqi_category aqi = ''Good'')
   \<and> (51 \<le> aqi \<and> aqi \<le> 100 \<longrightarrow> aqi_category aqi = ''Moderate'')
   \<and> (101 \<le> aqi \<and> aqi \<le> 150 \<longrightarrow> aqi_category aqi = ''Unhealthy for Sensitive Groups'')
   \<and> (151 \<le> aqi \<and> aqi \<le> 200 \<longrightarrow> aqi_category aqi = ''Unhealthy'')
   \<and> (201 \<le> aqi \<and> aqi \<le> 300 \<longrightarrow> aqi_category aqi = ''Very Unhealthy'')
   \<and> (300 < aqi \<longrightarrow> aqi_category aqi = ''Hazardous'')
   \<and> aqi_category 50 = ''Good'' \<and> aqi_category 51 = ''Moderate''
   \<and> aqi_category 301 = ''Hazardous''"
  by simp

theorem aqi_category_bands_witness:
  "aqi_category 50 = ''Good'' \<and> aqi_category 51 = ''Moderate''
   \<and> aqi_category 100 = ''Moderate''
   \<and> aqi_category 101 = ''Unhealthy for Sensitive Groups''
   \<and> aqi_category 200 = ''Unhealthy'' \<and> aqi_category 201 = ''Very Unhealthy''
   \<and> aqi_category 300 = ''Very Unhealthy'' \<and> aqi_category 301 = ''Hazardous''"
  using aqi_category_bands [of 50] aqi_category_bands [of 100] aqi_category_bands [of 101]
    aqi_category_bands [of 200] aqi_category_bands [of 201] aqi_category_bands [of 300]
    aqi_category_bands [of 301]
  by simp

text \<open>
  Claim C9.  \<open>aqi_category\<close> is defined on every int, and every negative index is
  \<open>Good\<close>.
\<close>

theorem aqi_category_negative: "aqi < 0 \<Longrightarrow> aqi_category aqi = ''Good''"
  by simp

theorem aqi_category_negative_witness: "(- 7 :: int) < 0 \<and> aqi_category (- 7) = ''Good''"
  using aqi_category_negative [of "- 7"] by simp

section \<open>Concentrations outside every range\<close>

lemma above_top_PM25:
  assumes "flt (lit (5004 / 10)) C"
  shows "aqi_for_concentration C PM25_BREAKPOINTS = Inr None"
proof -
  have top: "lit (5004 / 10) = Finite (4401564948312883 / 8796093022208)"
    by (simp add: float_eval)
  show ?thesis
    using assms unfolding top PM25_BREAKPOINTS_eval
    by (cases C) (simp_all add: in_range_def)
qed

lemma above_top_PM10:
  assumes "flt (lit 604) C"
  shows "aqi_for_concentration C PM10_BREAKPOINTS = Inr None"
proof -
  have top: "lit 604 = Finite 604" by (simp add: float_eval)
  show ?thesis
    using assms unfolding top PM10_BREAKPOINTS_eval
    by (cases C) (simp_all add: in_range_def)
qed

text \<open>
  Claim C7.  When the concentration lies in no range of the table,
  \<open>aqi_for_concentration\<close> returns \<open>None\<close> and raises nothing, whatever the table and
  the float; so it does for every concentration above the top breakpoint of the PM2.5
  table (500.4) or of the PM10 table (604), such as the PM2.5 concentration \<open>600\<close>.
\<close>

theorem aqi_for_concentration_out_of_range:
  "((\<forall>bp \<in> set bps. \<not> in_range C bp) \<longrightarrow> aqi_for_concentration C bps = Inr None)
   \<and> (flt (lit (5004 / 10)) C \<longrightarrow> aqi_for_concentration C PM25_BREAKPOINTS = Inr None)
   \<and> (flt (lit 604) C \<longrightarrow> aqi_for_concentration C PM10_BREAKPOINTS = Inr None)"
  using aqi_for_concentration_no_match [of bps C] above_top_PM25 [of C] above_top_PM10 [of C]
  by blast

theorem aqi_for_concentration_out_of_range_witness:
  "list_all (\<lambda>bp. \<not> in_range (lit 600) bp) PM25_BREAKPOINTS
   \<and> flt (lit (5004 / 10)) (lit 600)
   \<and> aqi_for_concentration (lit 600) PM25_BREAKPOINTS = Inr None
   \<and> flt (lit 604) (lit 700)
   \<and> aqi_for_concentration (lit 700) PM10_BREAKPOINTS = Inr None"
proof -
  have h: "list_all (\<lambda>bp. \<not> in_range (lit 600) bp) PM25_BREAKPOINTS"
    by (simp add: PM25_BREAKPOINTS_eval calc_eval)
  then have a: "\<forall>bp \<in> set PM25_BREAKPOINTS. \<not> in_range (lit 600) bp"
    by (simp add: list_all_iff)
  have f: "flt (lit (5004 / 10)) (lit 600)" "flt (lit 604) (lit 700)"
    by (simp_all add: float_eval)
  from aqi_for_concentration_out_of_range [of PM25_BREAKPOINTS "lit 600"]
    aqi_for_concentration_out_of_range [of PM25_BREAKPOINTS "lit 700"] a h f
  show ?thesis by blast
qed

section \<open>All pollutants of a reading set\<close>

text \<open>An int of \<open>2 ^ 1024\<close> or more does not convert to a float.\<close>

lemma expo_le:
  assumes "0 < x" "x \<le> 2 powi e"
  shows "expo x \<le> e"
proof (rule ccontr)
  assume "\<not> expo x \<le> e"
  then have "e + 1 \<le> expo x" by simp
  then have "(2::rat) powi (e + 1) \<le> 2 powi expo x" by (rule pow2_mono)
  also have "\<dots> \<le> x" using assms(1) by (rule expo_bounds)
  finally have "(2::rat) powi (e + 1) \<le> 2 powi e" using assms(2) by simp
  moreover have "(2::rat) powi e < 2 powi (e + 1)"
    by (rule power_int_strict_increasing) simp_all
  ultimately show False by simp
qed

lemma float_of_int_overflow:
  assumes "2 ^ 1024 \<le> i"
  shows "float_of_int i = Inl OverflowError"
proof -
  have p: "(2::rat) powi 1024 = 2 ^ 1024" by simp
  have "expo (2 powi 1024) \<le> 1024" by (rule expo_le) (simp_all add: pow2_pos)
  then have "max (expo (2 powi 1024)) (- 1022) \<le> 1024 + 52" by simp
  with pow2_pos [of 1024] have "2 powi 1024 \<le> b64_round (2 powi 1024)"
    by (intro b64_round_ge_pow2) simp_all
  moreover have "(2::rat) powi 1024 \<le> of_int i"
    unfolding p using assms by (metis of_int_le_iff of_int_numeral of_int_power)
  then have "b64_round (2 powi 1024) \<le> b64_round (of_int i)"
    by (intro b64_round_mono) (simp_all add: pow2_pos less_imp_le)
  ultimately have "2 ^ 1024 \<le> b64_round (of_int i)" unfolding p by linarith
  then show ?thesis by (simp add: float_of_int_def fl_def)
qed

lemma py_float_cases:
  obtains (overflow) "py_float v = Inl OverflowError" | (float) C where "py_float v = Inr C"
proof (cases v)
  case (PyFloat x)
  then show ?thesis using float by simp
next
  case (PyInt i)
  then show ?thesis
    using overflow float by (cases "fl (of_int i)") (simp_all add: float_of_int_def)
qed

lemma converts_iff: "converts v \<longleftrightarrow> (\<exists>C. py_float v = Inr C)"
  by (cases "py_float v") (simp_all add: converts_def)

lemma not_converts_iff: "\<not> converts v \<longleftrightarrow> py_float v = Inl OverflowError"
  by (rule py_float_cases [of v]) (simp_all add: converts_def)

lemma update_fresh: "k \<notin> fst ` set al \<Longrightarrow> AList.update k v al = al @ [(k, v)]"
  by (induction al) auto

lemma compute_loop_total:
  assumes "distinct (map fst results @ map fst items)"
    and "\<forall>(k, v) \<in> set items. supported unicode_lower k \<longrightarrow> converts v"
  shows "\<exists>rs. compute_loop unicode_lower items results = Inr (results @ rs)
           \<and> list_all2 (reading_result unicode_lower) items rs"
  using assms
proof (induction items arbitrary: results)
  case Nil
  then show ?case by simp
next
  case (Cons reading items)
  obtain k v where kv: "reading = (k, v)" by (cases reading)
  from Cons.prems have fresh: "k \<notin> fst ` set results"
    and dist: "\<And>r. distinct (map fst (results @ [(k, r)]) @ map fst items)"
    and conv: "supported unicode_lower k \<longrightarrow> converts v"
    and rest: "\<forall>(k, v) \<in> set items. supported unicode_lower k \<longrightarrow> converts v"
    by (auto simp: kv)
  have step: "\<exists>rs. compute_loop unicode_lower items (AList.update k r results)
        = Inr (results @ (k, r) # rs)
      \<and> list_all2 (reading_result unicode_lower) items rs" for r
    using Cons.IH [OF dist [of r] rest] by (simp add: update_fresh [OF fresh])
  have "\<exists>r. compute_loop unicode_lower (reading # items) results
        = compute_loop unicode_lower items (AList.update k r results)
      \<and> reading_result unicode_lower (k, v) (k, r)"
  proof -
    consider (pm25) "lower unicode_lower (strip k) = str ''pm2.5''
        \<or> lower unicode_lower (strip k) = str ''pm25''"
      | (pm10) "lower unicode_lower (strip k) = str ''pm10''"
        "\<not> (lower unicode_lower (strip k) = str ''pm2.5''
          \<or> lower unicode_lower (strip k) = str ''pm25'')"
      | (other) "lower unicode_lower (strip k) \<noteq> str ''pm10''"
        "\<not> (lower unicode_lower (strip k) = str ''pm2.5''
          \<or> lower unicode_lower (strip k) = str ''pm25'')"
      by blast
    then show ?thesis
    proof cases
      case pm25
      then have "supported unicode_lower k" by (auto simp: supported_def)
      with conv obtain C where C: "py_float v = Inr C" by (auto simp: converts_iff)
      from aqi_for_concentration_total [OF table_ok_PM25] obtain r
        where "aqi_for_concentration C PM25_BREAKPOINTS = Inr r" by blast
      with pm25 C show ?thesis by (auto simp: kv reading_result_def Let_def)
    next
      case pm10
      then have "supported unicode_lower k" by (auto simp: supported_def)
      with conv obtain C where C: "py_float v = Inr C" by (auto simp: converts_iff)
      from aqi_for_concentration_total [OF table_ok_PM10] obtain r
        where "aqi_for_concentration C PM10_BREAKPOINTS = Inr r" by blast
      with pm10 C show ?thesis by (auto simp: kv reading_result_def Let_def)
    next
      case other
      then show ?thesis by (auto simp: kv reading_result_def Let_def)
    qed
  qed
  then obtain r where r: "compute_loop unicode_lower (reading # items) results
        = compute_loop unicode_lower items (AList.update k r results)"
      "reading_result unicode_lower (k, v) (k, r)" by blast
  from step [of r] obtain rs
    where "compute_loop unicode_lower items (AList.update k r results)
        = Inr (results @ (k, r) # rs)"
      "list_all2 (reading_result unicode_lower) items rs" by blast
  with r have "compute_loop unicode_lower (reading # items) results = Inr (results @ (k, r) # rs)
      \<and> list_all2 (reading_result unicode_lower) (reading # items) ((k, r) # rs)"
    by (simp add: kv)
  then show ?case by blast
qed

lemma compute_loop_overflow:
  assumes "\<exists>(k, v) \<in> set items. supported unicode_lower k \<and> \<not> converts v"
  shows "compute_loop unicode_lower items results = Inl OverflowError"
  using assms
proof (induction items arbitrary: results)
  case Nil
  then show ?case by simp
next
  case (Cons reading items)
  obtain k v where kv: "reading = (k, v)" by (cases reading)
  show ?case
  proof (cases "supported unicode_lower k \<and> \<not> converts v")
    case True
    then have s: "lower unicode_lower (strip k) = str ''pm2.5''
        \<or> lower unicode_lower (strip k) = str ''pm25''
        \<or> lower unicode_lower (strip k) = str ''pm10''"
      and f: "py_float v = Inl OverflowError"
      by (simp_all add: supported_def Let_def not_converts_iff)
    then show ?thesis by (auto simp: kv Let_def)
  next
    case False
    with Cons.prems have rest: "\<exists>(k, v) \<in> set items. supported unicode_lower k \<and> \<not> converts v"
      by (auto simp: kv)
    note IH = Cons.IH [OF rest]
    consider (pm25) "lower unicode_lower (strip k) = str ''pm2.5''
        \<or> lower unicode_lower (strip k) = str ''pm25''"
      | (pm10) "lower unicode_lower (strip k) = str ''pm10''"
        "\<not> (lower unicode_lower (strip k) = str ''pm2.5''
          \<or> lower unicode_lower (strip k) = str ''pm25'')"
      | (other) "lower unicode_lower (strip k) \<noteq> str ''pm10''"
        "\<not> (lower unicode_lower (strip k) = str ''pm2.5''
          \<or> lower unicode_lower (strip k) = str ''pm25'')"
      by blast
    then show ?thesis
    proof cases
      case pm25
      then have "supported unicode_lower k" by (auto simp: supported_def)
      with False obtain C where C: "py_float v = Inr C" by (auto simp: converts_iff)
      from aqi_for_concentration_total [OF table_ok_PM25] obtain r
        where "aqi_for_concentration C PM25_BREAKPOINTS = Inr r" by blast
      with pm25 C IH show ?thesis by (simp add: kv Let_def)
    next
      case pm10
      then have "supported unicode_lower k" by (auto simp: supported_def)
      with False obtain C where C: "py_float v = Inr C" by (auto simp: converts_iff)
      from aqi_for_concentration_total [OF table_ok_PM10] obtain r
        where "aqi_for_concentration C PM10_BREAKPOINTS = Inr r" by blast
      with pm10 C IH show ?thesis by (simp add: kv Let_def)
    next
      case other
      with IH show ?thesis by (simp add: kv Let_def)
    qed
  qed
qed

lemma reading_result_keys:
  "list_all2 (reading_result unicode_lower) concs rs \<Longrightarrow> map fst rs = map fst concs"
  by (induction concs rs rule: list_all2_induct) (auto simp: reading_result_def)

text \<open>
  Claim C6, as the code has it.  A dict of readings maps strings (of any code points)
  to floats or ints.  When every int concentration under a supported key converts to a
  float (every float does), \<open>compute_aqi_for_pollutants\<close> returns and raises nothing; the
  result has the keys of the input, in the same order, each once; the entry of a key
  holds the index that the PM2.5 table gives for \<open>float(v)\<close> when the trimmed,
  lower-cased key is \<open>pm2.5\<close> or \<open>pm25\<close>, the index of the PM10 table when it is \<open>pm10\<close>,
  and \<open>None\<close> for every other key.  When some int concentration under a supported key is
  too large for a float, the call raises \<open>OverflowError\<close>.
\<close>

theorem compute_aqi_for_pollutants_total:
  "(distinct (map fst concs)
      \<and> (\<forall>(k, v) \<in> set concs. supported unicode_lower k \<longrightarrow> converts v)
    \<longrightarrow> (\<exists>results. compute_aqi_for_pollutants unicode_lower concs = Inr results
           \<and> map fst results = map fst concs
           \<and> list_all2 (reading_result unicode_lower) concs results))
   \<and> ((\<exists>(k, v) \<in> set concs. supported unicode_lower k \<and> \<not> converts v)
    \<longrightarrow> compute_aqi_for_pollutants unicode_lower concs = Inl OverflowError)
   \<and> converts (PyFloat x)"
proof (intro conjI impI)
  assume a: "distinct (map fst concs)
    \<and> (\<forall>(k, v) \<in> set concs. supported unicode_lower k \<longrightarrow> converts v)"
  then have "distinct (map fst [] @ map fst concs)" by simp
  from compute_loop_total [OF this] a obtain rs
    where rs: "compute_loop unicode_lower concs [] = Inr rs"
      "list_all2 (reading_result unicode_lower) concs rs" by auto
  from rs(2) have "map fst rs = map fst concs" by (rule reading_result_keys)
  with rs show "\<exists>results. compute_aqi_for_pollutants unicode_lower concs = Inr results
      \<and> map fst results = map fst concs
      \<and> list_all2 (reading_result unicode_lower) concs results"
    unfolding compute_aqi_for_pollutants_def by blast
next
  assume "\<exists>(k, v) \<in> set concs. supported unicode_lower k \<and> \<not> converts v"
  then show "compute_aqi_for_pollutants unicode_lower concs = Inl OverflowError"
    unfolding compute_aqi_for_pollutants_def by (rule compute_loop_overflow)
next
  show "converts (PyFloat x)" by (simp add: converts_def)
qed

lemma converts_sample: "list_all (\<lambda>(k, v). converts v) sample"
  by (simp add: sample_def converts_def float_of_int_80)

lemma huge_int: "\<not> converts (PyInt (10 ^ 400))"
  by (simp add: converts_def float_of_int_overflow)

lemma supported_pm10: "supported unicode_lower (str ''pm10'')"
  by (simp add: supported_def str_eval)

theorem compute_aqi_for_pollutants_total_witness:
  "\<forall>unicode_lower.
     distinct (map fst sample) \<and> list_all (\<lambda>(k, v). converts v) sample
     \<and> (\<exists>results. compute_aqi_for_pollutants unicode_lower sample = Inr results
           \<and> map fst results = map fst sample
           \<and> list_all2 (reading_result unicode_lower) sample results)
     \<and> supported unicode_lower (str ''pm10'') \<and> \<not> converts (PyInt (10 ^ 400))
     \<and> compute_aqi_for_pollutants unicode_lower [(str ''pm10'', PyInt (10 ^ 400))]
         = Inl OverflowError"
proof
  fix unicode_lower :: "pystr \<Rightarrow> pystr"
  have d: "distinct (map fst sample)" by (simp add: sample_def str_names)
  have c: "\<forall>(k, v) \<in> set sample. supported unicode_lower k \<longrightarrow> converts v"
    using converts_sample by (auto simp: list_all_iff)
  have e: "\<exists>(k, v) \<in> set [(str ''pm10'', PyInt (10 ^ 400))].
      supported unicode_lower k \<and> \<not> converts v"
    using supported_pm10 huge_int by simp
  from compute_aqi_for_pollutants_total [of sample unicode_lower]
    compute_aqi_for_pollutants_total [of "[(str ''pm10'', PyInt (10 ^ 400))]" unicode_lower]
    d c e converts_sample supported_pm10 huge_int
  show "distinct (map fst sample) \<and> list_all (\<lambda>(k, v). converts v) sample
     \<and> (\<exists>results. compute_aqi_for_pollutants unicode_lower sample = Inr results
           \<and> map fst results = map fst sample
           \<and> list_all2 (reading_result unicode_lower) sample results)
     \<and> supported unicode_lower (str ''pm10'') \<and> \<not> converts (PyInt (10 ^ 400))
     \<and> compute_aqi_for_pollutants unicode_lower [(str ''pm10'', PyInt (10 ^ 400))]
         = Inl OverflowError"
    by blast
qed

text \<open>
  Claim C6 as stated fails on a numeric concentration that is an int too large for a
  float: for the dict \<open>{"pm10": 10 ** 400}\<close> the call \<open>float(v)\<close> raises
  \<open>OverflowError\<close>, whatever the case tables of the runtime, and no result is returned.
\<close>

theorem compute_aqi_for_pollutants_overflow:
  "\<forall>unicode_lower.
     distinct (map fst [(str ''pm10'', PyInt (10 ^ 400))])
     \<and> compute_aqi_for_pollutants unicode_lower [(str ''pm10'', PyInt (10 ^ 400))]
         = Inl OverflowError"
  by (simp add: compute_aqi_for_pollutants_def norm_pm10 str_names float_of_int_overflow)

section \<open>The overall index\<close>

lemma set_valid_aqis: "set (valid_aqis aqi_results) = {i. \<exists>k. (k, Some i) \<in> set aqi_results}"
  by (auto simp: valid_aqis_def List.map_filter_def intro: rev_image_eqI)

lemma py_max_Max: "xs \<noteq> [] \<Longrightarrow> py_max xs = Inr (Max (set xs))"
  by (cases xs) (simp_all add: Max.set_eq_fold [symmetric])

text \<open>
  Claim C8, as the code has it.  The overall index is the maximum of the defined
  per-pollutant indices, and there is none when no index is defined; for the sample
  \<open>{"PM2.5": 35.0, "PM10": 80, "CO": 0.7}\<close> the indices are 99, 63 and \<open>None\<close>, and the
  overall index is \<open>max(99, 63) = 99\<close>, the unsupported \<open>CO\<close> left out.
\<close>

theorem overall_is_max:
  "overall aqi_results =
     (if valid_aqis aqi_results = [] then Inr None
      else Inr (Some (Max (set (valid_aqis aqi_results)))))
   \<and> set (valid_aqis aqi_results) = {i. \<exists>k. (k, Some i) \<in> set aqi_results}
   \<and> compute_aqi_for_pollutants unicode_lower sample =
       Inr [(str ''PM2.5'', Some 99), (str ''PM10'', Some 63), (str ''CO'', None)]
   \<and> demo_overall unicode_lower = Inr (Some 99)"
  by (simp add: overall_def py_max_Max set_valid_aqis compute_sample demo_overall_eval)

text \<open>
  Claim C8 as stated fails: the overall index of the sample is not \<open>80\<close>, whatever the
  case tables of the runtime.
\<close>

theorem demo_overall_not_80: "\<forall>unicode_lower. demo_overall unicode_lower \<noteq> Inr (Some 80)"
  by (simp add: demo_overall_eval)

section \<open>The gaps of the tables\<close>

lemma lit_eval:
  "lit 12 = Finite 12" "lit 54 = Finite 54" "lit 55 = Finite 55" "lit 154 = Finite 154"
  "lit 155 = Finite 155" "lit 254 = Finite 254" "lit 255 = Finite 255"
  "lit 354 = Finite 354" "lit 355 = Finite 355" "lit 424 = Finite 424"
  "lit 425 = Finite 425" "lit 504 = Finite 504" "lit 505 = Finite 505"
  "lit (121 / 10) = Finite (6811694436397875 / 562949953421312)"
  "lit (354 / 10) = Finite (4982107087778611 / 140737488355328)"
  "lit (355 / 10) = Finite (71 / 2)"
  "lit (554 / 10) = Finite (7796856854885171 / 140737488355328)"
  "lit (555 / 10) = Finite (111 / 2)"
  "lit (1504 / 10) = Finite (5291729562160333 / 35184372088832)"
  "lit (1505 / 10) = Finite (301 / 2)"
  "lit (2504 / 10) = Finite (8810166771043533 / 35184372088832)"
  "lit (2505 / 10) = Finite (501 / 2)"
  "lit (3504 / 10) = Finite (3082150994981683 / 8796093022208)"
  "lit (3505 / 10) = Finite (701 / 2)"
  by (simp_all add: float_eval)

lemma PM10_gaps:
  assumes "(flt (lit 54) C \<and> flt C (lit 55)) \<or> (flt (lit 154) C \<and> flt C (lit 155))
    \<or> (flt (lit 254) C \<and> flt C (lit 255)) \<or> (flt (lit 354) C \<and> flt C (lit 355))
    \<or> (flt (lit 424) C \<and> flt C (lit 425)) \<or> (flt (lit 504) C \<and> flt C (lit 505))"
  shows "aqi_for_concentration C PM10_BREAKPOINTS = Inr None"
proof -
  obtain c where c: "C = Finite c" using assms unfolding lit_eval by (cases C) auto
  show ?thesis
    using assms unfolding c lit_eval PM10_BREAKPOINTS_eval
    by (elim disjE conjE; simp add: in_range_def)
qed

lemma PM25_gaps:
  assumes "(flt (lit 12) C \<and> flt C (lit (121 / 10)))
    \<or> (flt (lit (354 / 10)) C \<and> flt C (lit (355 / 10)))
    \<or> (flt (lit (554 / 10)) C \<and> flt C (lit (555 / 10)))
    \<or> (flt (lit (1504 / 10)) C \<and> flt C (lit (1505 / 10)))
    \<or> (flt (lit (2504 / 10)) C \<and> flt C (lit (2505 / 10)))
    \<or> (flt (lit (3504 / 10)) C \<and> flt C (lit (3505 / 10)))"
  shows "aqi_for_concentration C PM25_BREAKPOINTS = Inr None"
proof -
  obtain c where c: "C = Finite c" using assms unfolding lit_eval by (cases C) auto
  show ?thesis
    using assms unfolding c lit_eval PM25_BREAKPOINTS_eval
    by (elim disjE conjE; simp add: in_range_def)
qed

text \<open>
  Claim C10.  The tables have gaps between consecutive ranges, and a concentration
  strictly inside a gap has no index: over the PM10 table between 54 and 55, 154 and
  155, 254 and 255, 354 and 355, 424 and 425, 504 and 505; over the PM2.5 table between
  12.0 and 12.1, 35.4 and 35.5, 55.4 and 55.5, 150.4 and 150.5, 250.4 and 250.5, 350.4
  and 350.5.  All of these lie below the top breakpoint of their table.
\<close>

theorem aqi_for_concentration_gaps:
  "((flt (lit 54) C \<and> flt C (lit 55)) \<or> (flt (lit 154) C \<and> flt C (lit 155))
      \<or> (flt (lit 254) C \<and> flt C (lit 255)) \<or> (flt (lit 354) C \<and> flt C (lit 355))
      \<or> (flt (lit 424) C \<and> flt C (lit 425)) \<or> (flt (lit 504) C \<and> flt C (lit 505))
    \<longrightarrow> aqi_for_concentration C PM10_BREAKPOINTS = Inr None)
   \<and> ((flt (lit 12) C \<and> flt C (lit (121 / 10)))
      \<or> (flt (lit (354 / 10)) C \<and> flt C (lit (355 / 10)))
      \<or> (flt (lit (554 / 10)) C \<and> flt C (lit (555 / 10)))
      \<or> (flt (lit (1504 / 10)) C \<and> flt C (lit (1505 / 10)))
      \<or> (flt (lit (2504 / 10)) C \<and> flt C (lit (2505 / 10)))
      \<or> (flt (lit (3504 / 10)) C \<and> flt C (lit (3505 / 10)))
    \<longrightarrow> aqi_for_concentration C PM25_BREAKPOINTS = Inr None)"
  using PM10_gaps [of C] PM25_gaps [of C] by blast

theorem aqi_for_concentration_gaps_witness:
  "flt (lit 54) (lit (109 / 2)) \<and> flt (lit (109 / 2)) (lit 55)
   \<and> aqi_for_concentration (lit (109 / 2)) PM10_BREAKPOINTS = Inr None
   \<and> flt (lit 12) (lit (193 / 16)) \<and> flt (lit (193 / 16)) (lit (121 / 10))
   \<and> aqi_for_concentration (lit (193 / 16)) PM25_BREAKPOINTS = Inr None"
proof -
  have a: "flt (lit 54) (lit (109 / 2)) \<and> flt (lit (109 / 2)) (lit 55)"
    by (simp add: float_eval)
  have b: "flt (lit 12) (lit (193 / 16)) \<and> flt (lit (193 / 16)) (lit (121 / 10))"
    by (simp add: float_eval)
  from aqi_for_concentration_gaps [of "lit (109 / 2)"] aqi_for_concentration_gaps [of "lit (193 / 16)"]
    a b
  show ?thesis by blast
qed

end
